theory Spec2Isabelle
  imports Main "HOL-Library.AList"
begin

section \<open>Data model\<close>

text \<open>
  The settlement synchronisation of \<^verbatim>\<open>watcher.go\<close>: \<^verbatim>\<open>checkPayments\<close> (one pass over
  the unsettled documents of the collection \<^verbatim>\<open>messages\<close>), \<^verbatim>\<open>watchInvoices\<close> (the
  receive loop on the invoice subscription) and the part of \<^verbatim>\<open>main\<close> that calls them.

  A Go \<^verbatim>\<open>error\<close> value is \<^verbatim>\<open>io.EOF\<close> or any other error, of which only the message is
  ever read.
\<close>

datatype error = EOF | Err string

fun Error :: "error \<Rightarrow> string" where
  "Error EOF = ''EOF''"
| "Error (Err msg) = msg"

text \<open>
  A Firestore document is a \<^verbatim>\<open>map[string]interface{}\<close>: the values the fields can hold.
\<close>

datatype fval = FString string | FBool bool | FInt int | FNil

type_synonym ref = string

text \<open>
  \<^verbatim>\<open>firestore.DocumentSnapshot\<close>: the reference of a document and its fields. The
  collection is the list of its documents in the order in which a query returns them;
  document references are unique in a collection (\<open>wf_store\<close>).
\<close>

record DocumentSnapshot =
  Ref :: ref
  Data :: "(string \<times> fval) list"

text \<open>The fields of \<^verbatim>\<open>lnrpc.Invoice\<close> and \<^verbatim>\<open>lnrpc.PayReq\<close> that the code reads.\<close>

record Invoice =
  PaymentRequest :: string
  Settled :: bool

record PayReq =
  PaymentHash :: string

text \<open>
  What the program does to the outside, in order: lines printed, calls made on the
  store, on the stream and on the connection, and the start of the HTTP server.
\<close>

datatype effect =
    Println "string list"
  | LogPrintln "string list"
  | LogFatalln "string list"
  | Fatal string
  | CallUpdate ref
  | CallCloseSend
  | CallConnClose
  | CallListenAndServe

text \<open>
  How a call ends: it returns, the process exits with a status (\<^verbatim>\<open>os.Exit\<close>, reached
  through \<^verbatim>\<open>log.Fatalln\<close> and \<^verbatim>\<open>fatal\<close>), a run-time panic unwinds the goroutine, or the
  call is still waiting (in \<^verbatim>\<open>sub.Recv()\<close>, or serving HTTP).
\<close>

datatype outcome = Returned | Exited nat | Panicked | Blocked

record state =
  messages :: "DocumentSnapshot list"
  trace :: "effect list"

text \<open>
  The answers of the two remote services. The lightning node: \<^verbatim>\<open>getClientConn\<close> may end
  in \<^verbatim>\<open>fatal(err)\<close>; \<^verbatim>\<open>DecodePayReq\<close>, \<^verbatim>\<open>LookupInvoice\<close> and \<^verbatim>\<open>SubscribeInvoices\<close>
  return a value or an error. The store: each \<^verbatim>\<open>GetAll\<close> and each \<^verbatim>\<open>Update\<close> may return an
  error. Within one run a service answers a call by its argument (the payment request,
  the hash, the reference of the document); another run has answers of its own.
\<close>

record env =
  getClientConnErr :: "error option"
  GetAllErr :: "error option"
  DecodePayReq :: "string \<Rightarrow> error + PayReq"
  LookupInvoice :: "string \<Rightarrow> error + Invoice"
  UpdateErr :: "ref \<Rightarrow> error option"
  SubscribeInvoicesErr :: "error option"
  FindErr :: "string \<Rightarrow> error option"

section \<open>The store\<close>

definition field :: "string \<Rightarrow> DocumentSnapshot \<Rightarrow> fval option" where
  "field k d = map_of (Data d) k"

text \<open>\<^verbatim>\<open>Where("settled", "==", false)\<close> and \<^verbatim>\<open>Where("invoice", "==", req).Limit(1)\<close>.\<close>

definition whereSettledFalse :: "DocumentSnapshot list \<Rightarrow> DocumentSnapshot list" where
  "whereSettledFalse ds = filter (\<lambda>d. field ''settled'' d = Some (FBool False)) ds"

definition whereInvoice :: "string \<Rightarrow> DocumentSnapshot list \<Rightarrow> DocumentSnapshot list" where
  "whereInvoice req ds = filter (\<lambda>d. field ''invoice'' d = Some (FString req)) ds"

definition whereInvoiceLimit1 :: "string \<Rightarrow> DocumentSnapshot list \<Rightarrow> DocumentSnapshot list" where
  "whereInvoiceLimit1 req ds = take 1 (whereInvoice req ds)"

text \<open>
  \<^verbatim>\<open>s.Ref.Update(ctx, []firestore.Update{{Path: "settled", Value: true}})\<close>: the call is
  recorded; it fails when the service says so and when the document does not exist;
  otherwise the field \<^verbatim>\<open>settled\<close> of the document becomes \<^verbatim>\<open>true\<close>.
\<close>

definition settle :: "DocumentSnapshot \<Rightarrow> DocumentSnapshot" where
  "settle d = d\<lparr>Data := AList.update ''settled'' (FBool True) (Data d)\<rparr>"

definition say :: "effect \<Rightarrow> state \<Rightarrow> state" where
  "say e st = st\<lparr>trace := trace st @ [e]\<rparr>"

definition Update :: "env \<Rightarrow> ref \<Rightarrow> state \<Rightarrow> error option \<times> state" where
  "Update env r st =
     (let st1 = say (CallUpdate r) st in
      case UpdateErr env r of
        Some e \<Rightarrow> (Some e, st1)
      | None \<Rightarrow>
          if r \<in> set (map Ref (messages st))
          then (None, st1\<lparr>messages := map (\<lambda>d. if Ref d = r then settle d else d) (messages st)\<rparr>)
          else (Some (Err ''not found''), st1))"

section \<open>checkPayments\<close>

text \<open>
  The loop over the snapshot (lines 43 to 67). The type assertion
  \<^verbatim>\<open>s.Data()["invoice"].(string)\<close> has no \<^verbatim>\<open>ok\<close> result: it panics unless the field is there
  and holds a string.
\<close>

fun scan :: "env \<Rightarrow> DocumentSnapshot list \<Rightarrow> state \<Rightarrow> outcome \<times> state" where
  "scan env [] st = (Returned, st)"
| "scan env (s # ss) st =
     (case field ''invoice'' s of
        Some (FString invoice) \<Rightarrow>
          (case DecodePayReq env invoice of
             Inl err \<Rightarrow> scan env ss (say (Println [''Failed to decode payreq'']) st)
           | Inr decoded \<Rightarrow>
               (case LookupInvoice env (PaymentHash decoded) of
                  Inl err \<Rightarrow> scan env ss (say (Println [''Failed to find invoice '', Error err]) st)
                | Inr lnInvoice \<Rightarrow>
                    if Settled lnInvoice then
                      (case Update env (Ref s) st of
                         (Some err, st1) \<Rightarrow> scan env ss (say (LogPrintln [''Update failed '', Error err]) st1)
                       | (None, st1) \<Rightarrow> scan env ss (say (LogPrintln [''Updated '', invoice]) st1))
                    else scan env ss st))
      | _ \<Rightarrow> (Panicked, st))"

text \<open>
  \<^verbatim>\<open>checkPayments\<close>: \<^verbatim>\<open>getClient\<close>, the listing, the loop, and the deferred \<^verbatim>\<open>clean()\<close>,
  which runs when the function returns and when it panics, not when the process exits.
  The function has no result.
\<close>

definition checkPayments :: "env \<Rightarrow> state \<Rightarrow> outcome \<times> state" where
  "checkPayments env st =
     (case getClientConnErr env of
        Some err \<Rightarrow> (Exited 1, say (Fatal (Error err)) st)
      | None \<Rightarrow>
          (case GetAllErr env of
             Some err \<Rightarrow> (Exited 1, say (LogFatalln [''Failed to get documents '', Error err]) st)
           | None \<Rightarrow>
               (case scan env (whereSettledFalse (messages st)) st of
                  (out, st1) \<Rightarrow> (out, say CallConnClose st1))))"

section \<open>watchInvoices\<close>

text \<open>The inner loop (lines 97 to 99): the result and the error of each update are dropped.\<close>

fun updateEach :: "env \<Rightarrow> DocumentSnapshot list \<Rightarrow> state \<Rightarrow> state" where
  "updateEach env [] st = st"
| "updateEach env (s # ss) st = updateEach env ss (snd (Update env (Ref s) st))"

text \<open>
  The receive loop (lines 79 to 101) on the successive results of \<^verbatim>\<open>sub.Recv()\<close>, each an
  invoice or an error. When the results seen so far are used up without an error, the
  loop is waiting in \<^verbatim>\<open>sub.Recv()\<close>.
\<close>

fun recvLoop :: "env \<Rightarrow> (error + Invoice) list \<Rightarrow> state \<Rightarrow> outcome \<times> state" where
  "recvLoop env [] st = (Blocked, st)"
| "recvLoop env (Inl err # rs) st =
     (Returned, say (Println [Error err]) (if err = EOF then say CallCloseSend st else st))"
| "recvLoop env (Inr invoice # rs) st =
     (if Settled invoice then
        (let st1 = say (Println [''Received '', PaymentRequest invoice]) st in
         case FindErr env (PaymentRequest invoice) of
           Some err \<Rightarrow> recvLoop env rs (say (Println [''Couldn't find invoice in firebase'']) st1)
         | None \<Rightarrow>
             recvLoop env rs
               (updateEach env (whereInvoiceLimit1 (PaymentRequest invoice) (messages st1)) st1))
      else recvLoop env rs st)"

definition watchInvoices :: "env \<Rightarrow> (error + Invoice) list \<Rightarrow> state \<Rightarrow> outcome \<times> state" where
  "watchInvoices env rs st =
     (case getClientConnErr env of
        Some err \<Rightarrow> (Exited 1, say (Fatal (Error err)) st)
      | None \<Rightarrow>
          (case SubscribeInvoicesErr env of
             Some err \<Rightarrow> (Returned, say CallConnClose (say (Println [Error err]) st))
           | None \<Rightarrow>
               (case recvLoop env rs st of
                  (Blocked, st1) \<Rightarrow> (Blocked, st1)
                | (out, st1) \<Rightarrow> (out, say CallConnClose st1))))"

section \<open>main\<close>

text \<open>
  Lines 271 to 318 of \<^verbatim>\<open>main\<close>: \<^verbatim>\<open>checkPayments()\<close>, then \<^verbatim>\<open>watchInvoices()\<close>, both called
  in the main goroutine, then the router and \<^verbatim>\<open>http.ListenAndServe\<close>, in which \<^verbatim>\<open>main\<close>
  stays.
\<close>

definition main :: "env \<Rightarrow> (error + Invoice) list \<Rightarrow> state \<Rightarrow> outcome \<times> state" where
  "main env rs st =
     (case checkPayments env st of
        (Returned, st1) \<Rightarrow>
          (case watchInvoices env rs st1 of
             (Returned, st2) \<Rightarrow> (Blocked, say CallListenAndServe st2)
           | (out, st2) \<Rightarrow> (out, st2))
      | (out, st1) \<Rightarrow> (out, st1))"

section \<open>Notions used to state the properties\<close>

definition settled :: "DocumentSnapshot \<Rightarrow> bool" where
  "settled d = (field ''settled'' d = Some (FBool True))"

text \<open>Document references are unique in a collection.\<close>

definition wf_store :: "DocumentSnapshot list \<Rightarrow> bool" where
  "wf_store ds = distinct (map Ref ds)"

definition hasInvoice :: "DocumentSnapshot \<Rightarrow> bool" where
  "hasInvoice d = (case field ''invoice'' d of Some (FString invoice) \<Rightarrow> True | _ \<Rightarrow> False)"

fun invoiceOf :: "DocumentSnapshot \<Rightarrow> string" where
  "invoiceOf d = (case field ''invoice'' d of Some (FString invoice) \<Rightarrow> invoice | _ \<Rightarrow> [])"

text \<open>
  The ledger reports the invoice of a document settled to a pass of \<^verbatim>\<open>checkPayments\<close>:
  the payment request decodes and the lookup of its hash returns a settled invoice.
\<close>

definition lookupSettled :: "env \<Rightarrow> DocumentSnapshot \<Rightarrow> bool" where
  "lookupSettled env d =
     (case field ''invoice'' d of
        Some (FString invoice) \<Rightarrow>
          (case DecodePayReq env invoice of
             Inl err \<Rightarrow> False
           | Inr decoded \<Rightarrow>
               (case LookupInvoice env (PaymentHash decoded) of
                  Inl err \<Rightarrow> False
                | Inr lnInvoice \<Rightarrow> Settled lnInvoice))
      | _ \<Rightarrow> False)"

text \<open>The invoices that \<^verbatim>\<open>sub.Recv()\<close> delivers before its first error.\<close>

fun delivered :: "(error + Invoice) list \<Rightarrow> Invoice list" where
  "delivered [] = []"
| "delivered (Inl err # rs) = []"
| "delivered (Inr invoice # rs) = invoice # delivered rs"

text \<open>
  The ledger reports the invoice of a document settled on the subscription: a delivered
  invoice is settled and carries the payment request of the document.
\<close>

definition streamSettled :: "(error + Invoice) list \<Rightarrow> DocumentSnapshot \<Rightarrow> bool" where
  "streamSettled rs d =
     (\<exists>invoice \<in> set (delivered rs).
        Settled invoice \<and> field ''invoice'' d = Some (FString (PaymentRequest invoice)))"

text \<open>The two update paths, each with the answers of the services during that run.\<close>

datatype op = CheckPayments env | WatchInvoices env "(error + Invoice) list"

fun perform :: "op \<Rightarrow> state \<Rightarrow> state" where
  "perform (CheckPayments env) st = snd (checkPayments env st)"
| "perform (WatchInvoices env rs) st = snd (watchInvoices env rs st)"

fun reported :: "op \<Rightarrow> DocumentSnapshot \<Rightarrow> bool" where
  "reported (CheckPayments env) d = lookupSettled env d"
| "reported (WatchInvoices env rs) d = streamSettled rs d"

text \<open>
  A store that differs from an earlier one only in documents whose field \<^verbatim>\<open>settled\<close> has
  been written \<^verbatim>\<open>true\<close>, each of them a document that \<open>J\<close> holds of.
\<close>

definition evolved ::
  "(DocumentSnapshot \<Rightarrow> bool) \<Rightarrow> DocumentSnapshot list \<Rightarrow> DocumentSnapshot list \<Rightarrow> bool" where
  "evolved J ds ds' = list_all2 (\<lambda>d d'. d' = d \<or> (d' = settle d \<and> J d)) ds ds'"

text \<open>The line \<^verbatim>\<open>log.Println("Updated ", invoice)\<close>.\<close>

fun isUpdated :: "effect \<Rightarrow> bool" where
  "isUpdated (LogPrintln [a, b]) = (a = ''Updated '')"
| "isUpdated e = False"

text \<open>The records of a snapshot whose update \<^verbatim>\<open>checkPayments\<close> makes and that succeeds.\<close>

definition updatedRecords :: "env \<Rightarrow> DocumentSnapshot list \<Rightarrow> DocumentSnapshot list" where
  "updatedRecords env ds = filter (\<lambda>d. lookupSettled env d \<and> UpdateErr env (Ref d) = None) ds"

section \<open>Concrete stores and ledgers\<close>

definition docA :: DocumentSnapshot where
  "docA = \<lparr>Ref = ''messages/a'', Data = [(''invoice'', FString ''pr1''), (''settled'', FBool False)]\<rparr>"

definition docB :: DocumentSnapshot where
  "docB = \<lparr>Ref = ''messages/b'', Data = [(''invoice'', FString ''pr1''), (''settled'', FBool False)]\<rparr>"

definition docC :: DocumentSnapshot where
  "docC = \<lparr>Ref = ''messages/c'', Data = [(''invoice'', FString ''pr3''), (''settled'', FBool False)]\<rparr>"

definition docJunk :: DocumentSnapshot where
  "docJunk = \<lparr>Ref = ''messages/j'', Data = [(''invoice'', FString ''junk''), (''settled'', FBool False)]\<rparr>"

definition docNoInvoice :: DocumentSnapshot where
  "docNoInvoice = \<lparr>Ref = ''messages/n'', Data = [(''settled'', FBool False)]\<rparr>"

definition docIntInvoice :: DocumentSnapshot where
  "docIntInvoice = \<lparr>Ref = ''messages/i'', Data = [(''invoice'', FInt 7), (''settled'', FBool False)]\<rparr>"

text \<open>
  A ledger that decodes \<^verbatim>\<open>pr1\<close> to \<^verbatim>\<open>hashA\<close> and \<^verbatim>\<open>pr3\<close> to \<^verbatim>\<open>hashC\<close>, knows \<^verbatim>\<open>hashA\<close> as
  settled and no other hash, and a store that answers every call.
\<close>

definition mock :: env where
  "mock = \<lparr>getClientConnErr = None, GetAllErr = None,
     DecodePayReq = (\<lambda>req. if req = ''pr1'' then Inr \<lparr>PaymentHash = ''hashA''\<rparr>
                           else if req = ''pr3'' then Inr \<lparr>PaymentHash = ''hashC''\<rparr>
                           else Inl (Err ''invalid payment request'')),
     LookupInvoice = (\<lambda>h. if h = ''hashA'' then Inr \<lparr>PaymentRequest = ''pr1'', Settled = True\<rparr>
                          else Inl (Err ''unable to locate invoice'')),
     UpdateErr = (\<lambda>r. None), SubscribeInvoicesErr = None, FindErr = (\<lambda>req. None)\<rparr>"


definition mockListingFails :: env where
  "mockListingFails = mock\<lparr>GetAllErr := Some (Err ''unavailable'')\<rparr>"

definition settledPr1 :: Invoice where
  "settledPr1 = \<lparr>PaymentRequest = ''pr1'', Settled = True\<rparr>"

definition store0 :: "DocumentSnapshot list \<Rightarrow> state" where
  "store0 ds = \<lparr>messages = ds, trace = []\<rparr>"

section \<open>Basic facts\<close>


lemma say_simps [simp]:
  "messages (say e st) = messages st"
  "trace (say e st) = trace st @ [e]"
  by (simp_all add: say_def)

lemma settle_simps [simp]:
  "Ref (settle d) = Ref d"
  "field ''settled'' (settle d) = Some (FBool True)"
  "k \<noteq> ''settled'' \<Longrightarrow> field k (settle d) = field k d"
  "settle (settle d) = settle d"
  by (simp_all add: settle_def field_def update_conv')

lemma settled_settle [simp]: "settled (settle d)"
  by (simp add: settled_def)

lemma field_invoice_settle [simp]: "field ''invoice'' (settle d) = field ''invoice'' d"
  by simp

lemma Update_trace [simp]: "trace (snd (Update env r st)) = trace st @ [CallUpdate r]"
  by (simp add: Update_def Let_def split: option.splits)

lemma Update_refs [simp]: "map Ref (messages (snd (Update env r st))) = map Ref (messages st)"
  by (simp add: Update_def Let_def comp_def split: option.splits)

lemma Update_fail:
  "fst (Update env r st) \<noteq> None \<Longrightarrow> snd (Update env r st) = say (CallUpdate r) st"
  by (simp add: Update_def Let_def split: option.splits if_splits)

lemma Update_ok:
  "fst (Update env r st) = None \<Longrightarrow>
   snd (Update env r st) =
     (say (CallUpdate r) st)\<lparr>messages := map (\<lambda>d. if Ref d = r then settle d else d) (messages st)\<rparr>"
  by (simp add: Update_def Let_def split: option.splits if_splits)

lemma Update_fst:
  "r \<in> set (map Ref (messages st)) \<Longrightarrow> fst (Update env r st) = UpdateErr env r"
  by (simp add: Update_def Let_def split: option.splits)

lemma scan_append:
  "scan env (xs @ ys) st =
     (if fst (scan env xs st) = Returned then scan env ys (snd (scan env xs st))
      else scan env xs st)"
proof (induction xs arbitrary: st)
  case Nil
  show ?case by simp
next
  case (Cons s xs)
  show ?case
    by (simp add: Cons.IH split: option.splits fval.splits sum.splits prod.splits)
qed

lemma scan_Cons_decode_fails:
  "field ''invoice'' s = Some (FString invoice) \<Longrightarrow> DecodePayReq env invoice = Inl err \<Longrightarrow>
   scan env (s # ss) st = scan env ss (say (Println [''Failed to decode payreq'']) st)"
  by simp

lemma scan_Cons_lookup_fails:
  "field ''invoice'' s = Some (FString invoice) \<Longrightarrow> DecodePayReq env invoice = Inr decoded \<Longrightarrow>
   LookupInvoice env (PaymentHash decoded) = Inl err \<Longrightarrow>
   scan env (s # ss) st = scan env ss (say (Println [''Failed to find invoice '', Error err]) st)"
  by simp

lemma scan_Cons_unsettled:
  "field ''invoice'' s = Some (FString invoice) \<Longrightarrow> DecodePayReq env invoice = Inr decoded \<Longrightarrow>
   LookupInvoice env (PaymentHash decoded) = Inr lnInvoice \<Longrightarrow> \<not> Settled lnInvoice \<Longrightarrow>
   scan env (s # ss) st = scan env ss st"
  by simp

lemma scan_Cons_update_fails:
  "field ''invoice'' s = Some (FString invoice) \<Longrightarrow> DecodePayReq env invoice = Inr decoded \<Longrightarrow>
   LookupInvoice env (PaymentHash decoded) = Inr lnInvoice \<Longrightarrow> Settled lnInvoice \<Longrightarrow>
   fst (Update env (Ref s) st) = Some err \<Longrightarrow>
   scan env (s # ss) st =
     scan env ss (say (LogPrintln [''Update failed '', Error err]) (say (CallUpdate (Ref s)) st))"
  using Update_fail [of env "Ref s" st] by (cases "Update env (Ref s) st") simp

lemma scan_Cons_updated:
  "field ''invoice'' s = Some (FString invoice) \<Longrightarrow> DecodePayReq env invoice = Inr decoded \<Longrightarrow>
   LookupInvoice env (PaymentHash decoded) = Inr lnInvoice \<Longrightarrow> Settled lnInvoice \<Longrightarrow>
   fst (Update env (Ref s) st) = None \<Longrightarrow>
   scan env (s # ss) st =
     scan env ss (say (LogPrintln [''Updated '', invoice]) (snd (Update env (Ref s) st)))"
  by (cases "Update env (Ref s) st") simp

lemma scan_Cons_panics:
  "\<not> hasInvoice s \<Longrightarrow> scan env (s # ss) st = (Panicked, st)"
  by (simp add: hasInvoice_def split: option.splits fval.splits)

lemma scan_Returned:
  "\<forall>d \<in> set xs. hasInvoice d \<Longrightarrow> fst (scan env xs st) = Returned"
  by (induction xs arbitrary: st)
    (auto simp: hasInvoice_def split: option.splits fval.splits sum.splits prod.splits)

lemma scan_Cons_cases:
  "hasInvoice s \<Longrightarrow> \<exists>st1. scan env (s # ss) st = scan env ss st1"
  by (auto simp: hasInvoice_def split: option.splits fval.splits sum.splits prod.splits)

lemma scan_Panicked:
  "\<exists>d \<in> set xs. \<not> hasInvoice d \<Longrightarrow> fst (scan env xs st) = Panicked"
proof (induction xs arbitrary: st)
  case Nil
  then show ?case by simp
next
  case (Cons s ss)
  show ?case
  proof (cases "hasInvoice s")
    case True
    with Cons.prems have "\<exists>d \<in> set ss. \<not> hasInvoice d" by auto
    moreover obtain st1 where "scan env (s # ss) st = scan env ss st1"
      using scan_Cons_cases [OF True] by blast
    ultimately show ?thesis using Cons.IH by simp
  next
    case False
    then show ?thesis by (simp add: scan_Cons_panics del: scan.simps)
  qed
qed

section \<open>A failing record is skipped and the pass goes on\<close>


lemma scan_outcome: "fst (scan env xs st) = Returned \<or> fst (scan env xs st) = Panicked"
  by (induction xs arbitrary: st) (auto split: option.splits fval.splits sum.splits prod.splits)


subsection \<open>The concrete stores and ledgers\<close>

lemma mock_simps [simp]:
  "getClientConnErr mock = None"
  "GetAllErr mock = None"
  "SubscribeInvoicesErr mock = None"
  "FindErr mock req = None"
  "UpdateErr mock r = None"
  "DecodePayReq mock ''pr1'' = Inr \<lparr>PaymentHash = ''hashA''\<rparr>"
  "DecodePayReq mock ''pr3'' = Inr \<lparr>PaymentHash = ''hashC''\<rparr>"
  "DecodePayReq mock ''junk'' = Inl (Err ''invalid payment request'')"
  "LookupInvoice mock ''hashA'' = Inr \<lparr>PaymentRequest = ''pr1'', Settled = True\<rparr>"
  "LookupInvoice mock ''hashC'' = Inl (Err ''unable to locate invoice'')"
  by (simp_all add: mock_def)

lemma doc_fields [simp]:
  "field ''invoice'' docA = Some (FString ''pr1'')"
  "field ''invoice'' docB = Some (FString ''pr1'')"
  "field ''invoice'' docC = Some (FString ''pr3'')"
  "field ''invoice'' docJunk = Some (FString ''junk'')"
  "field ''invoice'' docNoInvoice = None"
  "field ''invoice'' docIntInvoice = Some (FInt 7)"
  "field ''settled'' docA = Some (FBool False)"
  "field ''settled'' docB = Some (FBool False)"
  "field ''settled'' docC = Some (FBool False)"
  "field ''settled'' docJunk = Some (FBool False)"
  "field ''settled'' docNoInvoice = Some (FBool False)"
  "field ''settled'' docIntInvoice = Some (FBool False)"
  by (simp_all add: field_def docA_def docB_def docC_def docJunk_def docNoInvoice_def
      docIntInvoice_def)

lemma doc_refs [simp]:
  "Ref docA = ''messages/a''"
  "Ref docB = ''messages/b''"
  "Ref docC = ''messages/c''"
  "Ref docJunk = ''messages/j''"
  "Ref docNoInvoice = ''messages/n''"
  "Ref docIntInvoice = ''messages/i''"
  by (simp_all add: docA_def docB_def docC_def docJunk_def docNoInvoice_def docIntInvoice_def)

lemma store0_simps [simp]: "messages (store0 ds) = ds" "trace (store0 ds) = []"
  by (simp_all add: store0_def)




section \<open>One step of the loop of checkPayments\<close>

declare scan.simps(2) [simp del]

lemma scan_Cons_step:
  "(\<not> hasInvoice s \<and> scan env (s # ss) st = (Panicked, st))
   \<or> (hasInvoice s \<and> \<not> lookupSettled env s \<and>
       (\<exists>t. scan env (s # ss) st = scan env ss (st\<lparr>trace := trace st @ t\<rparr>) \<and>
            (\<forall>e \<in> set t. \<exists>xs. e = Println xs)))
   \<or> (hasInvoice s \<and> lookupSettled env s \<and>
       (\<exists>err. fst (Update env (Ref s) st) = Some err \<and>
          scan env (s # ss) st =
            scan env ss (say (LogPrintln [''Update failed '', Error err]) (say (CallUpdate (Ref s)) st))))
   \<or> (hasInvoice s \<and> lookupSettled env s \<and> fst (Update env (Ref s) st) = None \<and>
       scan env (s # ss) st =
         scan env ss (say (LogPrintln [''Updated '', invoiceOf s]) (snd (Update env (Ref s) st))))"
proof (cases "hasInvoice s")
  case False
  then show ?thesis by (simp add: scan_Cons_panics)
next
  case True
  then obtain invoice where inv: "field ''invoice'' s = Some (FString invoice)"
    by (auto simp: hasInvoice_def split: option.splits fval.splits)
  show ?thesis
  proof (cases "DecodePayReq env invoice")
    case (Inl err)
    have "scan env (s # ss) st = scan env ss (st\<lparr>trace := trace st @ [Println [''Failed to decode payreq'']]\<rparr>)"
      using scan_Cons_decode_fails [OF inv Inl] by (simp add: say_def)
    moreover have "\<not> lookupSettled env s" using inv Inl by (simp add: lookupSettled_def)
    ultimately show ?thesis using True by fastforce
  next
    case (Inr decoded)
    note dec = this
    show ?thesis
    proof (cases "LookupInvoice env (PaymentHash decoded)")
      case (Inl err)
      have "scan env (s # ss) st =
          scan env ss (st\<lparr>trace := trace st @ [Println [''Failed to find invoice '', Error err]]\<rparr>)"
        using scan_Cons_lookup_fails [OF inv dec Inl] by (simp add: say_def)
      moreover have "\<not> lookupSettled env s" using inv dec Inl by (simp add: lookupSettled_def)
      ultimately show ?thesis using True by fastforce
    next
      case (Inr lnInvoice)
      show ?thesis
      proof (cases "Settled lnInvoice")
        case False
        have "scan env (s # ss) st = scan env ss (st\<lparr>trace := trace st @ []\<rparr>)"
          using scan_Cons_unsettled [OF inv dec Inr False] by simp
        moreover have "\<not> lookupSettled env s" using inv dec Inr False by (simp add: lookupSettled_def)
        ultimately show ?thesis using True by fastforce
      next
        case settled: True
        have ls: "lookupSettled env s" using inv dec Inr settled by (simp add: lookupSettled_def)
        show ?thesis
        proof (cases "fst (Update env (Ref s) st)")
          case None
          then show ?thesis
            using scan_Cons_updated [OF inv dec Inr settled None] True ls inv by simp
        next
          case (Some err)
          then show ?thesis
            using scan_Cons_update_fails [OF inv dec Inr settled Some] True ls by simp
        qed
      qed
    qed
  qed
qed

lemma Update_keeps:
  "d \<in> set (messages st) \<Longrightarrow> Ref d \<noteq> r \<Longrightarrow> d \<in> set (messages (snd (Update env r st)))"
  by (auto simp: Update_def Let_def split: option.splits)

lemma scan_frame:
  assumes "\<forall>s \<in> set snap. Ref s = Ref d \<longrightarrow> \<not> lookupSettled env s"
    and "d \<in> set (messages st)"
  shows "d \<in> set (messages (snd (scan env snap st))) \<and>
    (\<exists>t. trace (snd (scan env snap st)) = trace st @ t \<and> CallUpdate (Ref d) \<notin> set t)"
  using assms
proof (induction snap arbitrary: st)
  case Nil
  then show ?case by simp
next
  case (Cons s ss)
  have rest: "\<forall>s \<in> set ss. Ref s = Ref d \<longrightarrow> \<not> lookupSettled env s"
    using Cons.prems(1) by simp
  note IH = Cons.IH [OF rest]
  consider
    (panic) "scan env (s # ss) st = (Panicked, st)"
    | (skip) t where "scan env (s # ss) st = scan env ss (st\<lparr>trace := trace st @ t\<rparr>)"
      "\<forall>e \<in> set t. \<exists>xs. e = Println xs"
    | (fail) err where "lookupSettled env s"
      "scan env (s # ss) st =
         scan env ss (say (LogPrintln [''Update failed '', Error err]) (say (CallUpdate (Ref s)) st))"
    | (ok) "lookupSettled env s"
      "scan env (s # ss) st =
         scan env ss (say (LogPrintln [''Updated '', invoiceOf s]) (snd (Update env (Ref s) st)))"
    using scan_Cons_step [of s env ss st] by blast
  then show ?case
  proof cases
    case panic
    then show ?thesis using Cons.prems(2) by simp
  next
    case skip
    have "d \<in> set (messages (st\<lparr>trace := trace st @ t\<rparr>))" using Cons.prems(2) by simp
    from IH [OF this] skip show ?thesis by auto
  next
    case fail
    then have ne: "Ref s \<noteq> Ref d" using Cons.prems(1) by auto
    have "d \<in> set (messages (say (LogPrintln [''Update failed '', Error err]) (say (CallUpdate (Ref s)) st)))"
      using Cons.prems(2) by simp
    from IH [OF this] fail ne show ?thesis by auto
  next
    case ok
    then have ne: "Ref s \<noteq> Ref d" using Cons.prems(1) by auto
    have "d \<in> set (messages (say (LogPrintln [''Updated '', invoiceOf s]) (snd (Update env (Ref s) st))))"
      using Cons.prems(2) ne by (simp add: Update_keeps)
    from IH [OF this] ok ne show ?thesis by auto
  qed
qed


lemma checkPayments_eq:
  "checkPayments env st =
     (case getClientConnErr env of
        Some err \<Rightarrow> (Exited 1, say (Fatal (Error err)) st)
      | None \<Rightarrow>
          (case GetAllErr env of
             Some err \<Rightarrow> (Exited 1, say (LogFatalln [''Failed to get documents '', Error err]) st)
           | None \<Rightarrow>
               (fst (scan env (whereSettledFalse (messages st)) st),
                say CallConnClose (snd (scan env (whereSettledFalse (messages st)) st)))))"
  by (simp add: checkPayments_def split: option.splits prod.splits)

section \<open>A record the ledger does not know\<close>

lemma wf_store_same_ref:
  "wf_store ds \<Longrightarrow> a \<in> set ds \<Longrightarrow> b \<in> set ds \<Longrightarrow> Ref a = Ref b \<Longrightarrow> a = b"
  by (auto simp: wf_store_def distinct_map inj_on_def)

lemma whereSettledFalse_subset: "s \<in> set (whereSettledFalse ds) \<Longrightarrow> s \<in> set ds"
  by (simp add: whereSettledFalse_def)

lemma lookupSettled_not_found:
  "field ''invoice'' s = Some (FString invoice) \<Longrightarrow> DecodePayReq env invoice = Inr decoded \<Longrightarrow>
   LookupInvoice env (PaymentHash decoded) = Inl err \<Longrightarrow> \<not> lookupSettled env s"
  by (simp add: lookupSettled_def)

text \<open>
  Claim C7. Let the record \<open>s\<close> hold a payment request that decodes and whose hash the
  ledger lookup answers with an error (the invoice is not found). In the loop, after the
  records \<open>pre\<close>, the pass prints the line \<^verbatim>\<open>Failed to find invoice\<close>, leaves the store as
  it was and goes on with the remaining records \<open>post\<close>. Over a whole call of
  \<^verbatim>\<open>checkPayments\<close> on a store with unique references, the document \<open>s\<close> is in the store
  afterwards with every field as before, and the call makes no \<^verbatim>\<open>Update\<close> on its reference.
\<close>

theorem scan_not_found_leaves_record:
  assumes inv: "field ''invoice'' s = Some (FString invoice)"
    and dec: "DecodePayReq env invoice = Inr decoded"
    and nf: "LookupInvoice env (PaymentHash decoded) = Inl err"
  shows
    "(fst (scan env pre st) = Returned \<longrightarrow>
        scan env (pre @ s # post) st =
          scan env post
            (say (Println [''Failed to find invoice '', Error err]) (snd (scan env pre st))))
     \<and> (wf_store (messages st) \<and> s \<in> set (messages st) \<longrightarrow>
        s \<in> set (messages (snd (checkPayments env st))) \<and>
        CallUpdate (Ref s) \<notin> set (drop (length (trace st)) (trace (snd (checkPayments env st)))))"
proof (intro conjI impI)
  assume "fst (scan env pre st) = Returned"
  then show "scan env (pre @ s # post) st =
      scan env post (say (Println [''Failed to find invoice '', Error err]) (snd (scan env pre st)))"
    by (simp add: scan_append [of env pre] scan_Cons_lookup_fails [OF inv dec nf])
next
  assume wf: "wf_store (messages st) \<and> s \<in> set (messages st)"
  have nls: "\<not> lookupSettled env s"
    by (rule lookupSettled_not_found [OF inv dec nf])
  have "\<forall>s' \<in> set (whereSettledFalse (messages st)). Ref s' = Ref s \<longrightarrow> \<not> lookupSettled env s'"
    using wf nls wf_store_same_ref whereSettledFalse_subset by blast
  from scan_frame [OF this] wf
  obtain t where keep: "s \<in> set (messages (snd (scan env (whereSettledFalse (messages st)) st)))"
    and tr: "trace (snd (scan env (whereSettledFalse (messages st)) st)) = trace st @ t"
    and no: "CallUpdate (Ref s) \<notin> set t"
    by blast
  show "s \<in> set (messages (snd (checkPayments env st)))"
    using wf keep by (simp add: checkPayments_eq split: option.splits)
  show "CallUpdate (Ref s) \<notin> set (drop (length (trace st)) (trace (snd (checkPayments env st))))"
    using tr no by (simp add: checkPayments_eq split: option.splits)
qed

theorem scan_not_found_leaves_record_witness:
  "wf_store (messages (store0 [docA, docC, docB])) \<and> docC \<in> set (messages (store0 [docA, docC, docB]))
   \<and> fst (scan mock [docA] (store0 [docA, docC, docB])) = Returned
   \<and> scan mock ([docA] @ docC # [docB]) (store0 [docA, docC, docB]) =
       scan mock [docB]
         (say (Println [''Failed to find invoice '', Error (Err ''unable to locate invoice'')])
            (snd (scan mock [docA] (store0 [docA, docC, docB]))))
   \<and> docC \<in> set (messages (snd (checkPayments mock (store0 [docA, docC, docB]))))
   \<and> CallUpdate (Ref docC) \<notin>
       set (drop (length (trace (store0 [docA, docC, docB])))
             (trace (snd (checkPayments mock (store0 [docA, docC, docB])))))"
proof -
  have r: "fst (scan mock [docA] (store0 [docA, docC, docB])) = Returned"
    by (rule scan_Returned) (simp add: hasInvoice_def)
  have w: "wf_store (messages (store0 [docA, docC, docB])) \<and>
      docC \<in> set (messages (store0 [docA, docC, docB]))"
    by (simp add: wf_store_def)
  have l: "LookupInvoice mock (PaymentHash \<lparr>PaymentHash = ''hashC''\<rparr>) = Inl (Err ''unable to locate invoice'')"
    by simp
  note t = scan_not_found_leaves_record [where s = docC and env = mock and pre = "[docA]"
      and post = "[docB]" and st = "store0 [docA, docC, docB]", OF doc_fields(3) mock_simps(7) l]
  show ?thesis using t r w by blast
qed

section \<open>A record without a string invoice\<close>

lemma main_not_Returned: "fst (checkPayments env st) \<noteq> Returned \<Longrightarrow> main env rs st = checkPayments env st"
  by (cases "checkPayments env st") (auto simp: main_def split: outcome.splits)

text \<open>
  Claim C9. When an unsettled document of the store has no field \<^verbatim>\<open>invoice\<close> or holds there a
  value that is not a string, and the client and the listing succeed, \<^verbatim>\<open>checkPayments\<close>
  ends in a panic, and so does \<^verbatim>\<open>main\<close>, in the same state: \<^verbatim>\<open>watchInvoices\<close> and the HTTP
  server are never started. In the loop the panic comes at that record, after the
  records \<open>pre\<close> before it, and none of the records \<open>post\<close> after it is processed.
\<close>

theorem checkPayments_panics_without_string_invoice:
  assumes "getClientConnErr env = None" and "GetAllErr env = None"
    and "d \<in> set (messages st)" and "field ''settled'' d = Some (FBool False)"
    and "\<not> hasInvoice d"
  shows "fst (checkPayments env st) = Panicked \<and> main env rs st = checkPayments env st
    \<and> (fst (scan env pre st') = Returned \<longrightarrow>
         scan env (pre @ d # post) st' = (Panicked, snd (scan env pre st')))"
proof -
  have "d \<in> set (whereSettledFalse (messages st))"
    using assms(3,4) by (simp add: whereSettledFalse_def)
  with assms(5) have "fst (scan env (whereSettledFalse (messages st)) st) = Panicked"
    using scan_Panicked by blast
  then have p: "fst (checkPayments env st) = Panicked"
    using assms(1,2) by (simp add: checkPayments_eq)
  then have "main env rs st = checkPayments env st"
    by (simp add: main_not_Returned)
  moreover have "fst (scan env pre st') = Returned \<longrightarrow>
      scan env (pre @ d # post) st' = (Panicked, snd (scan env pre st'))"
    using assms(5) by (simp add: scan_append [of env pre] scan_Cons_panics)
  ultimately show ?thesis using p by blast
qed

theorem checkPayments_panics_without_string_invoice_witness:
  "fst (checkPayments mock (store0 [docA, docNoInvoice, docB])) = Panicked
   \<and> main mock [Inr settledPr1] (store0 [docA, docNoInvoice, docB]) =
       checkPayments mock (store0 [docA, docNoInvoice, docB])
   \<and> scan mock ([docA] @ docNoInvoice # [docB]) (store0 [docA, docNoInvoice, docB]) =
       (Panicked, snd (scan mock [docA] (store0 [docA, docNoInvoice, docB])))
   \<and> fst (checkPayments mock (store0 [docIntInvoice, docB])) = Panicked
   \<and> map (field ''settled'') (messages (snd (checkPayments mock (store0 [docA, docNoInvoice, docB]))))
       = [Some (FBool True), Some (FBool False), Some (FBool False)]"
proof -
  have r: "fst (scan mock [docA] (store0 [docA, docNoInvoice, docB])) = Returned"
    by (rule scan_Returned) (simp add: hasInvoice_def)
  have n: "\<not> hasInvoice docNoInvoice" "\<not> hasInvoice docIntInvoice"
    by (simp_all add: hasInvoice_def)
  have m: "docNoInvoice \<in> set (messages (store0 [docA, docNoInvoice, docB]))"
    "docIntInvoice \<in> set (messages (store0 [docIntInvoice, docB]))"
    by simp_all
  note t1 = checkPayments_panics_without_string_invoice [where env = mock and d = docNoInvoice
      and st = "store0 [docA, docNoInvoice, docB]" and rs = "[Inr settledPr1]" and pre = "[docA]"
      and post = "[docB]" and st' = "store0 [docA, docNoInvoice, docB]",
      OF mock_simps(1) mock_simps(2) m(1) doc_fields(11) n(1)]
  note t2 = checkPayments_panics_without_string_invoice [where env = mock and d = docIntInvoice
      and st = "store0 [docIntInvoice, docB]",
      OF mock_simps(1) mock_simps(2) m(2) doc_fields(12) n(2)]
  have e: "map (field ''settled'') (messages (snd (checkPayments mock (store0 [docA, docNoInvoice, docB]))))
       = [Some (FBool True), Some (FBool False), Some (FBool False)]"
    by (simp add: checkPayments_def whereSettledFalse_def scan.simps(2) Update_def Let_def
        split: prod.splits)
  show ?thesis using t1 t2 r e by blast
qed

section \<open>The settled flag follows the ledger\<close>


lemma evolved_refl: "evolved J ds ds"
  by (simp add: evolved_def list_all2_same)

lemma evolved_refs: "evolved J ds ds' \<Longrightarrow> map Ref ds' = map Ref ds"
  unfolding evolved_def
  by (induction ds ds' rule: list_all2_induct) auto

lemma evolved_origin:
  assumes "evolved J ds ds'" and "s \<in> set ds'"
  shows "\<exists>d \<in> set ds. Ref d = Ref s \<and> field ''invoice'' d = field ''invoice'' s"
  using assms unfolding evolved_def
  by (induction ds ds' rule: list_all2_induct) auto

lemma evolved_map_settle:
  assumes "evolved J ds0 ds" and "\<forall>d0 \<in> set ds0. Ref d0 = r \<longrightarrow> J d0"
  shows "evolved J ds0 (map (\<lambda>d. if Ref d = r then settle d else d) ds)"
  using assms unfolding evolved_def
  by (induction ds0 ds rule: list_all2_induct) auto

lemma evolved_Update:
  assumes "evolved J ds0 (messages st)" and "\<forall>d0 \<in> set ds0. Ref d0 = r \<longrightarrow> J d0"
  shows "evolved J ds0 (messages (snd (Update env r st)))"
  using assms evolved_map_settle [OF assms]
  by (simp add: Update_def Let_def split: option.splits)

lemma scan_evolved:
  assumes "evolved J ds0 (messages st)"
    and "\<forall>s \<in> set snap. lookupSettled env s \<longrightarrow> (\<forall>d0 \<in> set ds0. Ref d0 = Ref s \<longrightarrow> J d0)"
  shows "evolved J ds0 (messages (snd (scan env snap st)))"
  using assms
proof (induction snap arbitrary: st)
  case Nil
  then show ?case by simp
next
  case (Cons s ss)
  have rest: "\<forall>s \<in> set ss. lookupSettled env s \<longrightarrow> (\<forall>d0 \<in> set ds0. Ref d0 = Ref s \<longrightarrow> J d0)"
    using Cons.prems(2) by simp
  have IH: "evolved J ds0 (messages st1) \<Longrightarrow> evolved J ds0 (messages (snd (scan env ss st1)))" for st1
    using Cons.IH rest by blast
  consider
    (panic) "scan env (s # ss) st = (Panicked, st)"
    | (skip) t where "scan env (s # ss) st = scan env ss (st\<lparr>trace := trace st @ t\<rparr>)"
    | (fail) err where
      "scan env (s # ss) st =
         scan env ss (say (LogPrintln [''Update failed '', Error err]) (say (CallUpdate (Ref s)) st))"
    | (ok) "lookupSettled env s"
      "scan env (s # ss) st =
         scan env ss (say (LogPrintln [''Updated '', invoiceOf s]) (snd (Update env (Ref s) st)))"
    using scan_Cons_step [of s env ss st] by blast
  then show ?case
  proof cases
    case panic
    then show ?thesis using Cons.prems(1) by simp
  next
    case skip
    have "evolved J ds0 (messages (st\<lparr>trace := trace st @ t\<rparr>))" using Cons.prems(1) by simp
    from IH [OF this] skip show ?thesis by simp
  next
    case fail
    have "evolved J ds0
        (messages (say (LogPrintln [''Update failed '', Error err]) (say (CallUpdate (Ref s)) st)))"
      using Cons.prems(1) by simp
    from IH [OF this] fail show ?thesis by simp
  next
    case ok
    have "\<forall>d0 \<in> set ds0. Ref d0 = Ref s \<longrightarrow> J d0"
      using Cons.prems(2) ok(1) by simp
    then have "evolved J ds0
        (messages (say (LogPrintln [''Updated '', invoiceOf s]) (snd (Update env (Ref s) st))))"
      using Cons.prems(1) by (simp add: evolved_Update)
    from IH [OF this] ok show ?thesis by simp
  qed
qed

lemma updateEach_evolved:
  assumes "evolved J ds0 (messages st)"
    and "\<forall>s \<in> set snap. \<forall>d0 \<in> set ds0. Ref d0 = Ref s \<longrightarrow> J d0"
  shows "evolved J ds0 (messages (updateEach env snap st))"
  using assms
  by (induction snap arbitrary: st) (simp_all add: evolved_Update)

lemma lookupSettled_cong:
  "field ''invoice'' d = field ''invoice'' d' \<Longrightarrow> lookupSettled env d = lookupSettled env d'"
  by (simp add: lookupSettled_def)

lemma streamSettled_cong:
  "field ''invoice'' d = field ''invoice'' d' \<Longrightarrow> streamSettled rs d = streamSettled rs d'"
  by (simp add: streamSettled_def)

lemma evolved_same_origin:
  assumes "wf_store ds0" and "evolved J ds0 ds" and "s \<in> set ds" and "d0 \<in> set ds0"
    and "Ref d0 = Ref s"
  shows "field ''invoice'' d0 = field ''invoice'' s"
proof -
  obtain d where "d \<in> set ds0" "Ref d = Ref s" "field ''invoice'' d = field ''invoice'' s"
    using evolved_origin [OF assms(2,3)] by blast
  moreover from this assms have "d = d0" by (simp add: wf_store_same_ref)
  ultimately show ?thesis by simp
qed

lemma checkPayments_evolved:
  assumes "wf_store ds0" and "evolved J ds0 (messages st)"
    and "\<forall>d. lookupSettled env d \<longrightarrow> J d"
  shows "evolved J ds0 (messages (snd (checkPayments env st)))"
proof -
  have "\<forall>s \<in> set (whereSettledFalse (messages st)).
      lookupSettled env s \<longrightarrow> (\<forall>d0 \<in> set ds0. Ref d0 = Ref s \<longrightarrow> J d0)"
  proof (intro ballI impI)
    fix s d0
    assume s: "s \<in> set (whereSettledFalse (messages st))" and l: "lookupSettled env s"
      and d0: "d0 \<in> set ds0" "Ref d0 = Ref s"
    from s have "s \<in> set (messages st)" by (rule whereSettledFalse_subset)
    from evolved_same_origin [OF assms(1,2) this d0]
    have "lookupSettled env d0" using l lookupSettled_cong by blast
    then show "J d0" using assms(3) by blast
  qed
  from scan_evolved [OF assms(2) this] assms(2) show ?thesis
    by (simp add: checkPayments_eq split: option.splits)
qed

lemma recvLoop_evolved:
  assumes "wf_store ds0" and "evolved J ds0 (messages st)"
    and "\<forall>d. streamSettled rs d \<longrightarrow> J d"
  shows "evolved J ds0 (messages (snd (recvLoop env rs st)))"
  using assms(2,3)
proof (induction env rs st rule: recvLoop.induct)
  case (1 env st)
  then show ?case by simp
next
  case (2 env err rs st)
  then show ?case by simp
next
  case (3 env invoice rs st)
  have J': "\<forall>d. streamSettled rs d \<longrightarrow> J d"
    using "3.prems"(2) by (auto simp: streamSettled_def)
  show ?case
  proof (cases "Settled invoice")
    case False
    then show ?thesis using "3.IH"(3) "3.prems"(1) J' by simp
  next
    case True
    let ?st1 = "say (Println [''Received '', PaymentRequest invoice]) st"
    show ?thesis
    proof (cases "FindErr env (PaymentRequest invoice)")
      case (Some err)
      have "evolved J ds0 (messages (say (Println [''Couldn't find invoice in firebase'']) ?st1))"
        using "3.prems"(1) by simp
      from "3.IH"(2) [OF True refl Some this J'] True Some show ?thesis by (simp add: Let_def)
    next
      case None
      have "\<forall>s \<in> set (whereInvoiceLimit1 (PaymentRequest invoice) (messages ?st1)).
          \<forall>d0 \<in> set ds0. Ref d0 = Ref s \<longrightarrow> J d0"
      proof (intro ballI impI)
        fix s d0
        assume s: "s \<in> set (whereInvoiceLimit1 (PaymentRequest invoice) (messages ?st1))"
          and d0: "d0 \<in> set ds0" "Ref d0 = Ref s"
        from s have "s \<in> set (whereInvoice (PaymentRequest invoice) (messages st))"
          by (auto simp: whereInvoiceLimit1_def dest: in_set_takeD)
        then have m: "s \<in> set (messages st)"
          and f: "field ''invoice'' s = Some (FString (PaymentRequest invoice))"
          by (simp_all add: whereInvoice_def)
        from evolved_same_origin [OF assms(1) "3.prems"(1) m d0] f
        have "streamSettled (Inr invoice # rs) d0"
          using True by (simp add: streamSettled_def)
        then show "J d0" using "3.prems"(2) by blast
      qed
      then have "evolved J ds0
          (messages (updateEach env (whereInvoiceLimit1 (PaymentRequest invoice) (messages ?st1)) ?st1))"
        using "3.prems"(1) by (intro updateEach_evolved) simp_all
      from "3.IH"(1) [OF True refl None this J'] True None show ?thesis by (simp add: Let_def)
    qed
  qed
qed

lemma watchInvoices_eq:
  "watchInvoices env rs st =
     (case getClientConnErr env of
        Some err \<Rightarrow> (Exited 1, say (Fatal (Error err)) st)
      | None \<Rightarrow>
          (case SubscribeInvoicesErr env of
             Some err \<Rightarrow> (Returned, say CallConnClose (say (Println [Error err]) st))
           | None \<Rightarrow>
               (if fst (recvLoop env rs st) = Blocked then recvLoop env rs st
                else (fst (recvLoop env rs st), say CallConnClose (snd (recvLoop env rs st))))))"
  by (cases "recvLoop env rs st")
    (simp add: watchInvoices_def split: option.splits outcome.splits)

lemma watchInvoices_evolved:
  assumes "wf_store ds0" and "evolved J ds0 (messages st)"
    and "\<forall>d. streamSettled rs d \<longrightarrow> J d"
  shows "evolved J ds0 (messages (snd (watchInvoices env rs st)))"
  using recvLoop_evolved [OF assms, of env] assms(2)
  by (simp add: watchInvoices_eq split: option.splits)

lemma perform_evolved:
  assumes "wf_store ds0" and "evolved J ds0 (messages st)"
    and "\<forall>d. reported op d \<longrightarrow> J d"
  shows "evolved J ds0 (messages (perform op st))"
  using assms
  by (cases op) (simp_all add: checkPayments_evolved watchInvoices_evolved)

lemma fold_perform_evolved:
  assumes "wf_store ds0"
  shows "evolved J ds0 (messages st) \<Longrightarrow> \<forall>op \<in> set ops. \<forall>d. reported op d \<longrightarrow> J d \<Longrightarrow>
    evolved J ds0 (messages (fold perform ops st))"
proof (induction ops arbitrary: st)
  case Nil
  then show ?case by simp
next
  case (Cons op ops)
  have "evolved J ds0 (messages (perform op st))"
    using Cons.prems by (intro perform_evolved [OF assms]) simp_all
  then show ?case using Cons.IH Cons.prems(2) by simp
qed

text \<open>
  Claim C1. Take a store with unique references and any sequence of calls of
  \<^verbatim>\<open>checkPayments\<close> and \<^verbatim>\<open>watchInvoices\<close>, each with its own answers of the ledger and of the
  store. Every document of the store is afterwards what it was, or what it was with the
  field \<^verbatim>\<open>settled\<close> written \<^verbatim>\<open>true\<close>: no call writes another value. A document that is
  settled afterwards was settled before, or the ledger reported its invoice settled to
  one of the calls (the lookup of its decoded payment request in a pass of
  \<^verbatim>\<open>checkPayments\<close>, or a settled invoice with its payment request delivered on the
  subscription). A document that was settled is settled afterwards.
\<close>

theorem settled_only_on_ledger_report:
  assumes "wf_store (messages st)"
  shows "list_all2
     (\<lambda>d d'. (d' = d \<or> d' = settle d)
        \<and> (settled d' \<longrightarrow> settled d \<or> (\<exists>op \<in> set ops. reported op d))
        \<and> (settled d \<longrightarrow> settled d'))
     (messages st) (messages (fold perform ops st))"
proof -
  let ?J = "\<lambda>d. \<exists>op \<in> set ops. reported op d"
  have "evolved ?J (messages st) (messages (fold perform ops st))"
    by (rule fold_perform_evolved [OF assms evolved_refl]) blast
  then show ?thesis
    unfolding evolved_def by (rule list_all2_mono) auto
qed


theorem settled_only_on_ledger_report_witness:
  "wf_store (messages (store0 [docA, docB, docC]))
   \<and> list_all2
     (\<lambda>d d'. (d' = d \<or> d' = settle d)
        \<and> (settled d' \<longrightarrow> settled d \<or>
             (\<exists>op \<in> set [CheckPayments mock, WatchInvoices mock [Inr settledPr1, Inl EOF]].
                reported op d))
        \<and> (settled d \<longrightarrow> settled d'))
     (messages (store0 [docA, docB, docC]))
     (messages (fold perform [CheckPayments mock, WatchInvoices mock [Inr settledPr1, Inl EOF]]
        (store0 [docA, docB, docC])))
   \<and> map settled (messages (snd (checkPayments mock (store0 [docA, docB, docC])))) =
       [True, True, False]"
proof -
  have w: "wf_store (messages (store0 [docA, docB, docC]))"
    by (simp add: wf_store_def)
  have e: "map settled (messages (snd (checkPayments mock (store0 [docA, docB, docC])))) =
       [True, True, False]"
    by (simp add: checkPayments_eq whereSettledFalse_def scan.simps(2) Update_def Let_def
        settled_def)
  show ?thesis
    using w e settled_only_on_ledger_report [OF w,
        of "[CheckPayments mock, WatchInvoices mock [Inr settledPr1, Inl EOF]]"]
    by blast
qed


section \<open>A failed listing\<close>

text \<open>
  Claim C2, as the code has it. When the client is there and the listing of the unsettled
  documents fails, \<^verbatim>\<open>checkPayments\<close> logs \<^verbatim>\<open>Failed to get documents\<close> with the error through
  \<^verbatim>\<open>log.Fatalln\<close>, which ends the process with exit status 1: no record is processed, the
  store is as it was, and \<^verbatim>\<open>main\<close> ends there, before \<^verbatim>\<open>watchInvoices\<close> is called.
\<close>

theorem checkPayments_listing_failure_exits:
  assumes "getClientConnErr env = None" and "GetAllErr env = Some err"
  shows "checkPayments env st =
      (Exited 1, say (LogFatalln [''Failed to get documents '', Error err]) st)
    \<and> main env rs st = (Exited 1, say (LogFatalln [''Failed to get documents '', Error err]) st)"
  using assms by (simp add: checkPayments_eq main_def)

theorem checkPayments_listing_failure_exits_witness:
  "getClientConnErr mockListingFails = None \<and> GetAllErr mockListingFails = Some (Err ''unavailable'')
   \<and> checkPayments mockListingFails (store0 [docA]) =
      (Exited 1, say (LogFatalln [''Failed to get documents '', Error (Err ''unavailable'')]) (store0 [docA]))
   \<and> main mockListingFails [Inr settledPr1] (store0 [docA]) =
      (Exited 1, say (LogFatalln [''Failed to get documents '', Error (Err ''unavailable'')]) (store0 [docA]))"
proof -
  have a: "getClientConnErr mockListingFails = None"
    and b: "GetAllErr mockListingFails = Some (Err ''unavailable'')"
    by (simp_all add: mockListingFails_def)
  show ?thesis
    using a b checkPayments_listing_failure_exits [OF a b, of "store0 [docA]" "[Inr settledPr1]"]
    by blast
qed

text \<open>
  Claim C2 as stated fails: with a failing listing the process exits with status 1 in
  \<^verbatim>\<open>checkPayments\<close>, and the settled invoice waiting on the subscription is never received.
\<close>

theorem listing_failure_counterexample:
  "fst (main mockListingFails [Inr settledPr1] (store0 [docA])) = Exited 1
   \<and> trace (snd (main mockListingFails [Inr settledPr1] (store0 [docA]))) =
       [LogFatalln [''Failed to get documents '', ''unavailable'']]
   \<and> messages (snd (main mockListingFails [Inr settledPr1] (store0 [docA]))) = [docA]"
  by (simp add: main_def checkPayments_eq mockListingFails_def)


section \<open>What a pass reports\<close>

lemma isUpdated_Println: "\<forall>e \<in> set t. \<exists>xs. e = Println xs \<Longrightarrow> filter isUpdated t = []"
  by (induction t) auto

lemma updatedRecords_Cons:
  "updatedRecords env (s # ss) =
     (if lookupSettled env s \<and> UpdateErr env (Ref s) = None then s # updatedRecords env ss
      else updatedRecords env ss)"
  by (simp add: updatedRecords_def)

lemma scan_Cons_elim [case_names panic skip fail ok]:
  obtains
    (panic) "\<not> hasInvoice s" "scan env (s # ss) st = (Panicked, st)"
  | (skip) t where "hasInvoice s" "\<not> lookupSettled env s"
      "scan env (s # ss) st = scan env ss (st\<lparr>trace := trace st @ t\<rparr>)"
      "\<forall>e \<in> set t. \<exists>xs. e = Println xs"
  | (fail) err where "hasInvoice s" "lookupSettled env s" "fst (Update env (Ref s) st) = Some err"
      "scan env (s # ss) st =
         scan env ss (say (LogPrintln [''Update failed '', Error err]) (say (CallUpdate (Ref s)) st))"
  | (ok) "hasInvoice s" "lookupSettled env s" "fst (Update env (Ref s) st) = None"
      "scan env (s # ss) st =
         scan env ss (say (LogPrintln [''Updated '', invoiceOf s]) (snd (Update env (Ref s) st)))"
  using scan_Cons_step [of s env ss st] by (elim disjE conjE exE) blast+

lemma scan_updated_lines:
  assumes "\<forall>s \<in> set snap. hasInvoice s"
    and "set (map Ref snap) \<subseteq> set (map Ref (messages st))"
  shows "filter isUpdated (trace (snd (scan env snap st))) =
     filter isUpdated (trace st) @
     map (\<lambda>d. LogPrintln [''Updated '', invoiceOf d]) (updatedRecords env snap)"
  using assms
proof (induction snap arbitrary: st)
  case Nil
  then show ?case by (simp add: updatedRecords_def)
next
  case (Cons s ss)
  have inv: "hasInvoice s" and rest: "\<forall>s \<in> set ss. hasInvoice s"
    using Cons.prems(1) by simp_all
  have r: "Ref s \<in> set (map Ref (messages st))"
    and rs: "set (map Ref ss) \<subseteq> set (map Ref (messages st))"
    using Cons.prems(2) by simp_all
  have u: "fst (Update env (Ref s) st) = UpdateErr env (Ref s)"
    by (rule Update_fst [OF r])
  show ?case
  proof (cases rule: scan_Cons_elim [of s env ss st])
    case panic
    then show ?thesis using inv by simp
  next
    case (skip t)
    have "set (map Ref ss) \<subseteq> set (map Ref (messages (st\<lparr>trace := trace st @ t\<rparr>)))"
      using rs by simp
    from Cons.IH [OF rest this] skip show ?thesis
      by (simp add: updatedRecords_Cons isUpdated_Println)
  next
    case (fail err)
    have "set (map Ref ss) \<subseteq> set (map Ref (messages
        (say (LogPrintln [''Update failed '', Error err]) (say (CallUpdate (Ref s)) st))))"
      using rs by simp
    from Cons.IH [OF rest this] fail u show ?thesis
      by (simp add: updatedRecords_Cons)
  next
    case ok
    have "set (map Ref ss) \<subseteq> set (map Ref (messages
        (say (LogPrintln [''Updated '', invoiceOf s]) (snd (Update env (Ref s) st)))))"
      using rs by simp
    from Cons.IH [OF rest this] ok u show ?thesis
      by (simp add: updatedRecords_Cons)
  qed
qed

lemma Update_keeps_settled:
  "settle d \<in> set (messages st) \<Longrightarrow> settle d \<in> set (messages (snd (Update env r st)))"
  by (auto simp: Update_def Let_def image_iff split: option.splits intro!: bexI [of _ "settle d"])

lemma Update_settles:
  "fst (Update env r st) = None \<Longrightarrow> d \<in> set (messages st) \<Longrightarrow> Ref d = r \<Longrightarrow>
   settle d \<in> set (messages (snd (Update env r st)))"
  by (auto simp: Update_def Let_def image_iff split: option.splits if_splits intro!: bexI [of _ d])

lemma scan_keeps_settled:
  "settle d \<in> set (messages st) \<Longrightarrow> settle d \<in> set (messages (snd (scan env snap st)))"
proof (induction snap arbitrary: st)
  case Nil
  then show ?case by simp
next
  case (Cons s ss)
  consider
    (panic) "scan env (s # ss) st = (Panicked, st)"
    | (skip) t where "scan env (s # ss) st = scan env ss (st\<lparr>trace := trace st @ t\<rparr>)"
    | (fail) err where
      "scan env (s # ss) st =
         scan env ss (say (LogPrintln [''Update failed '', Error err]) (say (CallUpdate (Ref s)) st))"
    | (ok)
      "scan env (s # ss) st =
         scan env ss (say (LogPrintln [''Updated '', invoiceOf s]) (snd (Update env (Ref s) st)))"
    using scan_Cons_step [of s env ss st] by blast
  then show ?case
  proof cases
    case panic
    then show ?thesis using Cons.prems by simp
  next
    case skip
    then show ?thesis using Cons.IH [of "st\<lparr>trace := trace st @ t\<rparr>"] Cons.prems by simp
  next
    case fail
    then show ?thesis
      using Cons.IH [of "say (LogPrintln [''Update failed '', Error err]) (say (CallUpdate (Ref s)) st)"]
        Cons.prems by simp
  next
    case ok
    then show ?thesis
      using Cons.IH [of "say (LogPrintln [''Updated '', invoiceOf s]) (snd (Update env (Ref s) st))"]
        Cons.prems by (simp add: Update_keeps_settled)
  qed
qed

lemma scan_settles:
  assumes "distinct (map Ref snap)" and "set snap \<subseteq> set (messages st)"
    and "d \<in> set (updatedRecords env snap)" and "\<forall>s \<in> set snap. hasInvoice s"
  shows "settle d \<in> set (messages (snd (scan env snap st)))"
  using assms
proof (induction snap arbitrary: st)
  case Nil
  then show ?case by (simp add: updatedRecords_def)
next
  case (Cons s ss)
  have dist: "distinct (map Ref ss)" and notin: "Ref s \<notin> set (map Ref ss)"
    using Cons.prems(1) by simp_all
  have sub: "set ss \<subseteq> set (messages st)" and s: "s \<in> set (messages st)"
    using Cons.prems(2) by simp_all
  have r: "Ref s \<in> set (map Ref (messages st))" using s by simp
  have u: "fst (Update env (Ref s) st) = UpdateErr env (Ref s)"
    by (rule Update_fst [OF r])
  have sub': "set ss \<subseteq> set (messages (snd (Update env (Ref s) st)))"
  proof
    fix x assume x: "x \<in> set ss"
    then have "Ref x \<noteq> Ref s" using notin by (metis imageI list.set_map)
    with x sub show "x \<in> set (messages (snd (Update env (Ref s) st)))"
      by (auto intro: Update_keeps)
  qed
  have inv: "hasInvoice s" and rest: "\<forall>s \<in> set ss. hasInvoice s"
    using Cons.prems(4) by simp_all
  show ?case
  proof (cases rule: scan_Cons_elim [of s env ss st])
    case panic
    then show ?thesis using inv by simp
  next
    case (skip t)
    then have d: "d \<in> set (updatedRecords env ss)"
      using Cons.prems(3) by (simp add: updatedRecords_Cons)
    have "set ss \<subseteq> set (messages (st\<lparr>trace := trace st @ t\<rparr>))" using sub by simp
    from Cons.IH [OF dist this d rest] skip show ?thesis by simp
  next
    case (fail err)
    then have d: "d \<in> set (updatedRecords env ss)"
      using Cons.prems(3) u by (simp add: updatedRecords_Cons)
    have "set ss \<subseteq> set (messages
        (say (LogPrintln [''Update failed '', Error err]) (say (CallUpdate (Ref s)) st)))"
      using sub by simp
    from Cons.IH [OF dist this d rest] fail show ?thesis by simp
  next
    case ok
    let ?st1 = "say (LogPrintln [''Updated '', invoiceOf s]) (snd (Update env (Ref s) st))"
    have sub1: "set ss \<subseteq> set (messages ?st1)" using sub' by simp
    show ?thesis
    proof (cases "d = s")
      case True
      have "settle d \<in> set (messages ?st1)"
        using Update_settles [OF ok(3) s refl] True by simp
      then show ?thesis using ok(4) scan_keeps_settled by simp
    next
      case False
      then have d: "d \<in> set (updatedRecords env ss)"
        using Cons.prems(3) by (simp add: updatedRecords_Cons split: if_splits)
      from Cons.IH [OF dist sub1 d rest] ok show ?thesis by simp
    qed
  qed
qed


lemma whereSettledFalse_distinct: "wf_store ds \<Longrightarrow> distinct (map Ref (whereSettledFalse ds))"
  by (simp add: wf_store_def whereSettledFalse_def distinct_map_filter)

text \<open>
  Claim C4, as the code has it. \<^verbatim>\<open>checkPayments\<close> has no result: neither a count nor an
  error comes back to the caller. When the client and the listing succeed and every
  unsettled document holds a payment request, the call returns, and the lines
  \<^verbatim>\<open>Updated\<close> that it logs are, in the order of the listing, one for each record whose
  invoice the ledger reports settled and whose update succeeds, and no other. On a store
  with unique references each of those records is settled in the store afterwards.
\<close>

theorem checkPayments_logs_each_update:
  assumes "getClientConnErr env = None" and "GetAllErr env = None"
    and "\<forall>d \<in> set (whereSettledFalse (messages st)). hasInvoice d"
  shows "fst (checkPayments env st) = Returned
    \<and> filter isUpdated (trace (snd (checkPayments env st))) =
        filter isUpdated (trace st) @
        map (\<lambda>d. LogPrintln [''Updated '', invoiceOf d])
          (updatedRecords env (whereSettledFalse (messages st)))
    \<and> (wf_store (messages st) \<longrightarrow>
        (\<forall>d \<in> set (updatedRecords env (whereSettledFalse (messages st))).
           settle d \<in> set (messages (snd (checkPayments env st)))))"
proof (intro conjI impI ballI)
  show "fst (checkPayments env st) = Returned"
    using assms by (simp add: checkPayments_eq scan_Returned)
next
  have "set (map Ref (whereSettledFalse (messages st))) \<subseteq> set (map Ref (messages st))"
    by (auto simp: whereSettledFalse_def)
  from scan_updated_lines [OF assms(3) this, of env]
  show "filter isUpdated (trace (snd (checkPayments env st))) =
        filter isUpdated (trace st) @
        map (\<lambda>d. LogPrintln [''Updated '', invoiceOf d])
          (updatedRecords env (whereSettledFalse (messages st)))"
    using assms(1,2) by (simp add: checkPayments_eq)
next
  fix d
  assume wf: "wf_store (messages st)"
    and d: "d \<in> set (updatedRecords env (whereSettledFalse (messages st)))"
  have "set (whereSettledFalse (messages st)) \<subseteq> set (messages st)"
    by (auto simp: whereSettledFalse_def)
  from scan_settles [OF whereSettledFalse_distinct [OF wf] this d assms(3)]
  show "settle d \<in> set (messages (snd (checkPayments env st)))"
    using assms(1,2) by (simp add: checkPayments_eq)
qed

theorem checkPayments_logs_each_update_witness:
  "list_all hasInvoice (whereSettledFalse (messages (store0 [docA])))
   \<and> wf_store (messages (store0 [docA]))
   \<and> updatedRecords mock (whereSettledFalse (messages (store0 [docA]))) = [docA]
   \<and> fst (checkPayments mock (store0 [docA])) = Returned
   \<and> filter isUpdated (trace (snd (checkPayments mock (store0 [docA])))) =
       [LogPrintln [''Updated '', ''pr1'']]
   \<and> settle docA \<in> set (messages (snd (checkPayments mock (store0 [docA]))))"
proof -
  have h: "\<forall>d \<in> set (whereSettledFalse (messages (store0 [docA]))). hasInvoice d"
    by (simp add: whereSettledFalse_def hasInvoice_def)
  have w: "wf_store (messages (store0 [docA]))"
    by (simp add: wf_store_def)
  have u: "updatedRecords mock (whereSettledFalse (messages (store0 [docA]))) = [docA]"
    by (simp add: updatedRecords_def whereSettledFalse_def lookupSettled_def)
  note t = checkPayments_logs_each_update [OF mock_simps(1) mock_simps(2) h]
  have "filter isUpdated (trace (snd (checkPayments mock (store0 [docA])))) =
       [LogPrintln [''Updated '', ''pr1'']]"
    using t u by simp
  moreover have "settle docA \<in> set (messages (snd (checkPayments mock (store0 [docA]))))"
    using t u w by simp
  moreover have "list_all hasInvoice (whereSettledFalse (messages (store0 [docA])))"
    using h by (simp add: list_all_iff)
  ultimately show ?thesis using w u t by blast
qed

text \<open>
  Claim C4 as stated fails: a pass with one successful update and a pass with none end
  alike for the caller, which gets no count; what tells them apart is the log.
\<close>

theorem checkPayments_result_counterexample:
  "fst (checkPayments mock (store0 [docA])) = fst (checkPayments mock (store0 []))
   \<and> length (filter isUpdated (trace (snd (checkPayments mock (store0 [docA]))))) = 1
   \<and> length (filter isUpdated (trace (snd (checkPayments mock (store0 []))))) = 0
   \<and> map (field ''settled'') (messages (snd (checkPayments mock (store0 [docA])))) =
       [Some (FBool True)]"
  by (simp add: checkPayments_eq whereSettledFalse_def scan.simps(2) Update_def Let_def
      settle_def field_def docA_def)


section \<open>A settled invoice on the subscription\<close>

lemma whereInvoiceLimit1_Nil:
  "whereInvoice req ds = [] \<Longrightarrow> whereInvoiceLimit1 req ds = []"
  by (simp add: whereInvoiceLimit1_def)

lemma whereInvoiceLimit1_Cons:
  "whereInvoice req ds = m # ms \<Longrightarrow> whereInvoiceLimit1 req ds = [m]"
  by (simp add: whereInvoiceLimit1_def)

lemma recvLoop_settled:
  "Settled invoice \<Longrightarrow> FindErr env (PaymentRequest invoice) = None \<Longrightarrow>
   recvLoop env (Inr invoice # rs) st =
     recvLoop env rs
       (updateEach env (whereInvoiceLimit1 (PaymentRequest invoice) (messages st))
          (say (Println [''Received '', PaymentRequest invoice]) st))"
  by (simp add: Let_def)

lemma map_settle_other:
  "r \<notin> Ref ` set ds \<Longrightarrow> map (\<lambda>d. if Ref d = r then settle d else d) ds = ds"
  by (induction ds) auto

lemma map_settle_unique:
  "Ref m \<notin> Ref ` set (pre @ post) \<Longrightarrow>
   map (\<lambda>d. if Ref d = Ref m then settle d else d) (pre @ m # post) = pre @ settle m # post"
  by (simp add: map_settle_other image_Un)

text \<open>
  Claim C3, as the code has it. The query of \<^verbatim>\<open>watchInvoices\<close> ends in \<^verbatim>\<open>Limit(1)\<close>: for a
  settled invoice received on the subscription, when the query succeeds, the update is
  issued for the first document whose field \<^verbatim>\<open>invoice\<close> is the payment request of the
  invoice, and for no other. With no such document the store is left as it is. With such
  a document \<open>m\<close>, after the documents \<open>pre\<close> that do not match, and an update that
  succeeds, \<open>m\<close> is settled and every other document, also a later one in \<open>post\<close> with the
  same payment request, is as before; one \<^verbatim>\<open>Update\<close> is called. The loop then goes on with
  the next result of \<^verbatim>\<open>Recv\<close>.
\<close>

theorem recvLoop_updates_first_match_only:
  assumes "Settled invoice" and "FindErr env (PaymentRequest invoice) = None"
  shows
    "(whereInvoice (PaymentRequest invoice) (messages st) = [] \<longrightarrow>
        recvLoop env (Inr invoice # rs) st =
          recvLoop env rs (say (Println [''Received '', PaymentRequest invoice]) st))
     \<and> (messages st = pre @ m # post \<and> whereInvoice (PaymentRequest invoice) pre = [] \<and>
        field ''invoice'' m = Some (FString (PaymentRequest invoice)) \<and>
        Ref m \<notin> Ref ` set (pre @ post) \<and> UpdateErr env (Ref m) = None \<longrightarrow>
        recvLoop env (Inr invoice # rs) st =
          recvLoop env rs
            (st\<lparr>messages := pre @ settle m # post,
                trace := trace st @ [Println [''Received '', PaymentRequest invoice], CallUpdate (Ref m)]\<rparr>))"
proof (intro conjI impI)
  assume "whereInvoice (PaymentRequest invoice) (messages st) = []"
  then show "recvLoop env (Inr invoice # rs) st =
      recvLoop env rs (say (Println [''Received '', PaymentRequest invoice]) st)"
    using assms by (simp add: recvLoop_settled whereInvoiceLimit1_Nil del: recvLoop.simps)
next
  assume h: "messages st = pre @ m # post \<and> whereInvoice (PaymentRequest invoice) pre = [] \<and>
        field ''invoice'' m = Some (FString (PaymentRequest invoice)) \<and>
        Ref m \<notin> Ref ` set (pre @ post) \<and> UpdateErr env (Ref m) = None"
  then have "whereInvoice (PaymentRequest invoice) (messages st) =
      m # whereInvoice (PaymentRequest invoice) post"
    by (simp add: whereInvoice_def)
  then have l: "whereInvoiceLimit1 (PaymentRequest invoice) (messages st) = [m]"
    by (rule whereInvoiceLimit1_Cons)
  have "snd (Update env (Ref m) (say (Println [''Received '', PaymentRequest invoice]) st)) =
      st\<lparr>messages := pre @ settle m # post,
         trace := trace st @ [Println [''Received '', PaymentRequest invoice], CallUpdate (Ref m)]\<rparr>"
    using h map_settle_unique [of m pre post] by (simp add: Update_def Let_def say_def)
  then show "recvLoop env (Inr invoice # rs) st =
      recvLoop env rs
        (st\<lparr>messages := pre @ settle m # post,
            trace := trace st @ [Println [''Received '', PaymentRequest invoice], CallUpdate (Ref m)]\<rparr>)"
    using assms l by (simp add: recvLoop_settled del: recvLoop.simps)
qed


lemma settledPr1_simps [simp]: "Settled settledPr1" "PaymentRequest settledPr1 = ''pr1''"
  by (simp_all add: settledPr1_def)

theorem recvLoop_updates_first_match_only_witness:
  "Settled settledPr1 \<and> FindErr mock (PaymentRequest settledPr1) = None
   \<and> whereInvoice (PaymentRequest settledPr1) (messages (store0 [docC])) = []
   \<and> recvLoop mock (Inr settledPr1 # []) (store0 [docC]) =
       recvLoop mock [] (say (Println [''Received '', PaymentRequest settledPr1]) (store0 [docC]))
   \<and> whereInvoice (PaymentRequest settledPr1) [docC, docA, docB] = [docA, docB]
   \<and> recvLoop mock (Inr settledPr1 # []) (store0 ([docC] @ docA # [docB])) =
       recvLoop mock []
         ((store0 ([docC] @ docA # [docB]))\<lparr>messages := [docC] @ settle docA # [docB],
            trace := trace (store0 ([docC] @ docA # [docB])) @
              [Println [''Received '', PaymentRequest settledPr1], CallUpdate (Ref docA)]\<rparr>)"
proof -
  have a: "Settled settledPr1" and b: "FindErr mock (PaymentRequest settledPr1) = None"
    by simp_all
  have e: "whereInvoice (PaymentRequest settledPr1) (messages (store0 [docC])) = []"
    by (simp add: whereInvoice_def)
  have f: "whereInvoice (PaymentRequest settledPr1) [docC, docA, docB] = [docA, docB]"
    by (simp add: whereInvoice_def)
  have h: "messages (store0 ([docC] @ docA # [docB])) = [docC] @ docA # [docB] \<and>
      whereInvoice (PaymentRequest settledPr1) [docC] = [] \<and>
      field ''invoice'' docA = Some (FString (PaymentRequest settledPr1)) \<and>
      Ref docA \<notin> Ref ` set ([docC] @ [docB]) \<and> UpdateErr mock (Ref docA) = None"
    by (simp add: whereInvoice_def)
  note t1 = recvLoop_updates_first_match_only [OF a b, where st = "store0 [docC]" and rs = "[]",
      THEN conjunct1]
  note t2 = recvLoop_updates_first_match_only [OF a b, where st = "store0 ([docC] @ docA # [docB])"
      and rs = "[]" and pre = "[docC]" and m = docA and post = "[docB]", THEN conjunct2]
  show ?thesis using a b e f h t1 t2 by blast
qed

text \<open>
  Claim C3 as stated fails: of two documents with the payment request of the settled
  invoice, the second stays unsettled, and one update is called.
\<close>

theorem limit_one_counterexample:
  "whereInvoice (PaymentRequest settledPr1) [docA, docB] = [docA, docB]
   \<and> map (field ''settled'') (messages (snd (watchInvoices mock [Inr settledPr1] (store0 [docA, docB]))))
       = [Some (FBool True), Some (FBool False)]
   \<and> trace (snd (watchInvoices mock [Inr settledPr1] (store0 [docA, docB]))) =
       [Println [''Received '', ''pr1''], CallUpdate ''messages/a'']"
  by (simp add: watchInvoices_eq whereInvoice_def whereInvoiceLimit1_def Update_def Let_def)

section \<open>A failed update in watchInvoices\<close>



section \<open>The end of the stream\<close>

lemma recvLoop_invoices:
  "fst (recvLoop env (map Inr invoices) st) = Blocked \<and>
   recvLoop env (map Inr invoices @ rs) st = recvLoop env rs (snd (recvLoop env (map Inr invoices) st))"
proof (induction invoices arbitrary: st)
  case Nil
  show ?case by simp
next
  case (Cons invoice invoices)
  show ?case
    by (simp add: Cons.IH Let_def split: option.splits)
qed

text \<open>
  Claim C8, as the code has it. Let the client and the subscription succeed and let
  \<^verbatim>\<open>Recv\<close> deliver the invoices \<open>invoices\<close> and then an error. After the invoices the loop is
  still waiting. When the error is \<^verbatim>\<open>io.EOF\<close>, \<^verbatim>\<open>watchInvoices\<close> calls \<^verbatim>\<open>CloseSend\<close> on the
  stream and then treats the end of the stream as it treats every receive error: it
  prints the error value, here \<^verbatim>\<open>EOF\<close>, closes the connection and returns, with the store
  as the invoices left it. On any other error it does the same without the call of
  \<^verbatim>\<open>CloseSend\<close>, which is all that tells the two ends apart.
\<close>

theorem watchInvoices_end_of_stream:
  assumes "getClientConnErr env = None" and "SubscribeInvoicesErr env = None"
  shows "fst (recvLoop env (map Inr invoices) st) = Blocked
    \<and> watchInvoices env (map Inr invoices @ Inl EOF # rest) st =
        (Returned,
         say CallConnClose (say (Println [''EOF''])
           (say CallCloseSend (snd (recvLoop env (map Inr invoices) st)))))
    \<and> (err \<noteq> EOF \<longrightarrow>
        watchInvoices env (map Inr invoices @ Inl err # rest) st =
          (Returned,
           say CallConnClose (say (Println [Error err])
             (snd (recvLoop env (map Inr invoices) st)))))"
  using assms recvLoop_invoices [of env invoices st]
  by (simp add: watchInvoices_eq)

theorem watchInvoices_end_of_stream_witness:
  "getClientConnErr mock = None \<and> SubscribeInvoicesErr mock = None
   \<and> watchInvoices mock (map Inr [settledPr1] @ Inl EOF # []) (store0 [docA]) =
        (Returned,
         say CallConnClose (say (Println [''EOF''])
           (say CallCloseSend (snd (recvLoop mock (map Inr [settledPr1]) (store0 [docA]))))))
   \<and> watchInvoices mock (map Inr [settledPr1] @ Inl (Err ''rpc error'') # []) (store0 [docA]) =
        (Returned,
         say CallConnClose (say (Println [Error (Err ''rpc error'')])
           (snd (recvLoop mock (map Inr [settledPr1]) (store0 [docA])))))
   \<and> trace (snd (watchInvoices mock (map Inr [settledPr1] @ Inl EOF # []) (store0 [docA]))) =
       [Println [''Received '', ''pr1''], CallUpdate ''messages/a'', CallCloseSend,
        Println [''EOF''], CallConnClose]"
proof -
  have n: "Err ''rpc error'' \<noteq> EOF" by simp
  note t = watchInvoices_end_of_stream [OF mock_simps(1) mock_simps(3), of "[settledPr1]"
      "store0 [docA]" "[]" "Err ''rpc error''"]
  have e: "trace (snd (recvLoop mock (map Inr [settledPr1]) (store0 [docA]))) =
      [Println [''Received '', ''pr1''], CallUpdate ''messages/a'']"
    by (simp add: whereInvoice_def whereInvoiceLimit1_def Update_def Let_def)
  have "trace (snd (watchInvoices mock (map Inr [settledPr1] @ Inl EOF # []) (store0 [docA]))) =
       [Println [''Received '', ''pr1''], CallUpdate ''messages/a'', CallCloseSend,
        Println [''EOF''], CallConnClose]"
    using t e by simp
  then show ?thesis using t n mock_simps(1) mock_simps(3) by blast
qed

text \<open>
  Claim C8 as stated fails: the end of the stream is reported as every receive error is.
  After \<^verbatim>\<open>CloseSend\<close> the value \<^verbatim>\<open>io.EOF\<close> reaches the branch \<^verbatim>\<open>err != nil\<close>, which prints it
  with \<^verbatim>\<open>fmt.Println(err)\<close> and returns; an error of another kind with the same message
  ends the call with the same line and the same outcome.
\<close>

theorem end_of_stream_counterexample:
  "watchInvoices mock [Inl EOF] (store0 [docA]) =
     (Returned, \<lparr>messages = [docA], trace = [CallCloseSend, Println [''EOF''], CallConnClose]\<rparr>)
   \<and> watchInvoices mock [Inl (Err ''EOF'')] (store0 [docA]) =
     (Returned, \<lparr>messages = [docA], trace = [Println [''EOF''], CallConnClose]\<rparr>)
   \<and> Println [Error EOF] \<in> set (trace (snd (watchInvoices mock [Inl EOF] (store0 [docA]))))"
  by (simp add: watchInvoices_eq say_def store0_def)

section \<open>The HTTP server and the receive loop\<close>


lemma updateEach_trace_serve:
  "CallListenAndServe \<notin> set (trace st) \<Longrightarrow>
   CallListenAndServe \<notin> set (trace (updateEach env snap st))"
  by (induction snap arbitrary: st) simp_all

lemma recvLoop_trace_serve:
  "CallListenAndServe \<notin> set (trace st) \<Longrightarrow>
   CallListenAndServe \<notin> set (trace (snd (recvLoop env rs st)))"
  by (induction env rs st rule: recvLoop.induct)
    (simp_all add: Let_def updateEach_trace_serve split: option.splits)

lemma scan_trace_serve:
  "CallListenAndServe \<notin> set (trace st) \<Longrightarrow>
   CallListenAndServe \<notin> set (trace (snd (scan env snap st)))"
proof (induction snap arbitrary: st)
  case Nil
  then show ?case by simp
next
  case (Cons s ss)
  show ?case
  proof (cases rule: scan_Cons_elim [of s env ss st])
    case panic
    then show ?thesis using Cons.prems by simp
  next
    case (skip t)
    have "CallListenAndServe \<notin> set (trace (st\<lparr>trace := trace st @ t\<rparr>))"
      using Cons.prems skip(4) by auto
    from Cons.IH [OF this] skip show ?thesis by simp
  next
    case (fail err)
    have "CallListenAndServe \<notin> set (trace
        (say (LogPrintln [''Update failed '', Error err]) (say (CallUpdate (Ref s)) st)))"
      using Cons.prems by simp
    from Cons.IH [OF this] fail show ?thesis by simp
  next
    case ok
    have "CallListenAndServe \<notin> set (trace
        (say (LogPrintln [''Updated '', invoiceOf s]) (snd (Update env (Ref s) st))))"
      using Cons.prems by simp
    from Cons.IH [OF this] ok show ?thesis by simp
  qed
qed

lemma checkPayments_trace_serve:
  "CallListenAndServe \<notin> set (trace st) \<Longrightarrow>
   CallListenAndServe \<notin> set (trace (snd (checkPayments env st)))"
  by (simp add: checkPayments_eq scan_trace_serve split: option.splits)

lemma checkPayments_Returned_client:
  "fst (checkPayments env st) = Returned \<Longrightarrow> getClientConnErr env = None"
  by (simp add: checkPayments_eq split: option.splits)

text \<open>
  Claim C5, on the code. \<^verbatim>\<open>main\<close> calls \<^verbatim>\<open>watchInvoices()\<close> in its own goroutine, before it
  builds the router. Once \<^verbatim>\<open>checkPayments\<close> has returned and the subscription is open, for
  as long as \<^verbatim>\<open>Recv\<close> has delivered invoices and no error, \<^verbatim>\<open>main\<close> is waiting in \<^verbatim>\<open>Recv\<close>
  and has not called \<^verbatim>\<open>ListenAndServe\<close>: the HTTP server is not there while the receive
  loop runs.
\<close>

theorem main_waits_in_watchInvoices:
  assumes "fst (checkPayments env st) = Returned" and "SubscribeInvoicesErr env = None"
    and "CallListenAndServe \<notin> set (trace st)"
  shows "fst (main env (map Inr invoices) st) = Blocked
    \<and> main env (map Inr invoices) st =
        recvLoop env (map Inr invoices) (snd (checkPayments env st))
    \<and> CallListenAndServe \<notin> set (trace (snd (main env (map Inr invoices) st)))"
proof -
  let ?st1 = "snd (checkPayments env st)"
  have c: "getClientConnErr env = None"
    by (rule checkPayments_Returned_client [OF assms(1)])
  have b: "fst (recvLoop env (map Inr invoices) ?st1) = Blocked"
    using recvLoop_invoices [of env invoices ?st1 "[]"] by simp
  then have w: "watchInvoices env (map Inr invoices) ?st1 = recvLoop env (map Inr invoices) ?st1"
    using c assms(2) by (simp add: watchInvoices_eq)
  have m: "main env (map Inr invoices) st = recvLoop env (map Inr invoices) ?st1"
    using assms(1) w b
    by (cases "checkPayments env st"; cases "recvLoop env (map Inr invoices) ?st1")
      (simp add: main_def)
  have "CallListenAndServe \<notin> set (trace (snd (recvLoop env (map Inr invoices) ?st1)))"
    by (intro recvLoop_trace_serve checkPayments_trace_serve assms(3))
  with m b show ?thesis by simp
qed

theorem main_waits_in_watchInvoices_witness:
  "fst (checkPayments mock (store0 [docA])) = Returned
   \<and> fst (main mock (map Inr [settledPr1]) (store0 [docA])) = Blocked
   \<and> CallListenAndServe \<notin> set (trace (snd (main mock (map Inr [settledPr1]) (store0 [docA]))))
   \<and> trace (snd (main mock [Inr settledPr1] (store0 [docA]))) =
       [CallUpdate ''messages/a'', LogPrintln [''Updated '', ''pr1''], CallConnClose,
        Println [''Received '', ''pr1''], CallUpdate ''messages/a'']
   \<and> trace (snd (main mock [Inr settledPr1, Inl EOF] (store0 [docA]))) =
       [CallUpdate ''messages/a'', LogPrintln [''Updated '', ''pr1''], CallConnClose,
        Println [''Received '', ''pr1''], CallUpdate ''messages/a'', CallCloseSend,
        Println [''EOF''], CallConnClose, CallListenAndServe]"
proof -
  have r: "fst (checkPayments mock (store0 [docA])) = Returned"
    by (simp add: checkPayments_eq whereSettledFalse_def scan_Returned hasInvoice_def)
  have n: "CallListenAndServe \<notin> set (trace (store0 [docA]))" by simp
  note t = main_waits_in_watchInvoices [OF r mock_simps(3) n, of "[settledPr1]"]
  have e: "trace (snd (main mock [Inr settledPr1] (store0 [docA]))) =
       [CallUpdate ''messages/a'', LogPrintln [''Updated '', ''pr1''], CallConnClose,
        Println [''Received '', ''pr1''], CallUpdate ''messages/a'']
   \<and> trace (snd (main mock [Inr settledPr1, Inl EOF] (store0 [docA]))) =
       [CallUpdate ''messages/a'', LogPrintln [''Updated '', ''pr1''], CallConnClose,
        Println [''Received '', ''pr1''], CallUpdate ''messages/a'', CallCloseSend,
        Println [''EOF''], CallConnClose, CallListenAndServe]"
    by (simp add: main_def checkPayments_eq watchInvoices_eq whereSettledFalse_def scan.simps(2)
        whereInvoice_def whereInvoiceLimit1_def Update_def Let_def settle_def field_def docA_def)
  show ?thesis using r t e by blast
qed

end
